theory Spec2Isabelle
  imports Complex_Main
begin

section \<open>C integer arithmetic\<close>

text \<open>
  The program is C. \<open>int\<close> and \<open>unsigned int\<close> are 32 bits wide and \<open>size_t\<close> is 64 bits
  wide. Values are modelled as mathematical integers; every operation of the source states
  what the C type does with them: unsigned arithmetic wraps around modulo \<open>2 ^ 32\<close>, signed
  arithmetic whose mathematical result does not fit in \<open>int\<close> is undefined behaviour, and so
  is a remainder by zero. Undefined behaviour is a result of its own (\<open>Inl\<close>), never a number.
\<close>

definition INT_MAX :: int where
  "INT_MAX = 2147483647"

definition INT_MIN :: int where
  "INT_MIN = - 2147483648"

definition UINT_MAX :: int where
  "UINT_MAX = 4294967295"

datatype c_error = DivisionByZero | SignedOverflow | OutOfBounds

text \<open>The value of an \<open>int\<close> operation whose mathematical result is \<open>v\<close>.\<close>

definition int_result :: "int \<Rightarrow> c_error + int" where
  "int_result v = (if INT_MIN \<le> v \<and> v \<le> INT_MAX then Inr v else Inl SignedOverflow)"

text \<open>
  \<open>a % b\<close> on \<open>int\<close>: the quotient is truncated towards zero, so the remainder has the sign
  of the dividend.
\<close>

definition int_rem :: "int \<Rightarrow> int \<Rightarrow> c_error + int" where
  "int_rem a b =
     (if b = 0 then Inl DivisionByZero
      else if a = INT_MIN \<and> b = - 1 then Inl SignedOverflow
      else Inr (sgn a * (\<bar>a\<bar> mod \<bar>b\<bar>)))"

text \<open>Conversion to \<open>unsigned int\<close>, which is also how unsigned arithmetic wraps.\<close>

definition to_uint :: "int \<Rightarrow> int" where
  "to_uint v = v mod 4294967296"

text \<open>
  Conversion of an \<open>unsigned int\<close> value to \<open>int\<close> (at the call of \<open>roundUpToNearest\<close>):
  the value is kept when it fits; otherwise the two's complement reading is taken.
\<close>

definition uint_to_int :: "int \<Rightarrow> int" where
  "uint_to_int v = (if v \<le> INT_MAX then v else v - 4294967296)"

definition to_size_t :: "int \<Rightarrow> int" where
  "to_size_t v = v mod 18446744073709551616"

definition sizeof_double :: int where
  "sizeof_double = 8"


section \<open>Program state\<close>

text \<open>
  What a function of the program can reach besides its parameters and locals: the
  file-scope pointer \<open>kernelSource\<close> and the heap block \<open>h_v\<close> points to (\<open>None\<close> until it
  is allocated). A \<open>double\<close> in that block is either indeterminate (never written since
  \<open>malloc\<close>) or holds a value; the values stored before the transform are small integers,
  which \<open>double\<close> represents exactly.
\<close>

datatype cell = Indeterminate | Value real

record prog_state =
  kernelSource :: string
  h_v :: "cell list option"

definition init_state :: prog_state where
  "init_state =
     \<lparr>kernelSource =
        ''#pragma OPENCL EXTENSION cl_khr_fp64 : enable  \<newline>'' @
        ''__kernel void mult(__global double *v) {       \<newline>'' @
        ''    int id, v_re, v_im;       \<newline>'' @
        ''    id   = get_global_id(0);  \<newline>'' @
        ''    v_re = 2*id;              \<newline>'' @
        ''    v_im = v_re + 1;          \<newline>'' @
        ''                              \<newline>'' @
        ''    v[v_re] = 2*v[v_re];      \<newline>'' @
        ''    v[v_im] = 4*v[v_im];      \<newline>'' @
        ''}                             \<newline>'' @
        ''\<newline>'',
      h_v = None\<rparr>"


section \<open>The padded-length computation\<close>

text \<open>
  \<^verbatim>\<open>int roundUpToNearest(int x, int n) {
    int x_rem = x % n;
    if (x_rem == 0)
        return x;
    return x + (n - x_rem);
}\<close>
  A call takes the program state and gives it back with the result.
\<close>

definition roundUpToNearest ::
    "int \<Rightarrow> int \<Rightarrow> prog_state \<Rightarrow> (c_error + int) \<times> prog_state" where
  "roundUpToNearest x n s =
     (case int_rem x n of
        Inl e \<Rightarrow> (Inl e, s)
      | Inr x_rem \<Rightarrow>
          if x_rem = 0 then (Inr x, s)
          else (case int_result (n - x_rem) of
                  Inl e \<Rightarrow> (Inl e, s)
                | Inr d \<Rightarrow> (int_result (x + d), s)))"

text \<open>
  The expression of \<open>main\<close> that initialises \<open>N_pad\<close>,
  \<^verbatim>\<open>unsigned int N_pad = 2*roundUpToNearest( (N+2)/2, 32 );\<close>
  with the logical length \<open>N\<close> (an \<open>unsigned int\<close>) and the group width (the \<open>int\<close> argument,
  32 in the source) as parameters. \<open>(N+2)/2\<close> is unsigned arithmetic, the product is \<open>int\<close>
  arithmetic, and the initialisation converts it to \<open>unsigned int\<close>.
\<close>

definition paddedLength ::
    "int \<Rightarrow> int \<Rightarrow> prog_state \<Rightarrow> (c_error + int) \<times> prog_state" where
  "paddedLength N groupWidth s =
     (case roundUpToNearest (uint_to_int (to_uint (N + 2) div 2)) groupWidth s of
        (Inl e, s') \<Rightarrow> (Inl e, s')
      | (Inr r, s') \<Rightarrow>
          (case int_result (2 * r) of
             Inl e \<Rightarrow> (Inl e, s')
           | Inr p \<Rightarrow> (Inr (to_uint p), s')))"


section \<open>The host-side set-up of \<open>main\<close>\<close>

text \<open>
  \<^verbatim>\<open>h_v = (double*) malloc(N_bytes);\<close>
  The block has room for \<open>N_bytes / sizeof(double)\<close> doubles and nothing has been written
  to it. The source does not test the pointer; the allocation is taken to succeed.
\<close>

definition malloc_h_v :: "int \<Rightarrow> prog_state \<Rightarrow> prog_state" where
  "malloc_h_v n_bytes s =
     s\<lparr>h_v := Some (replicate (nat (n_bytes div sizeof_double)) Indeterminate)\<rparr>"

text \<open>The assignment \<^verbatim>\<open>h_v[i] = v\<close>; outside the block it is undefined behaviour.\<close>

definition store_h_v :: "int \<Rightarrow> cell \<Rightarrow> prog_state \<Rightarrow> (c_error + unit) \<times> prog_state" where
  "store_h_v i v s =
     (case h_v s of
        None \<Rightarrow> (Inl OutOfBounds, s)
      | Some b \<Rightarrow>
          if 0 \<le> i \<and> nat i < length b
          then (Inr (), s\<lparr>h_v := Some (b[nat i := v])\<rparr>)
          else (Inl OutOfBounds, s))"

text \<open>
  \<^verbatim>\<open>for (i = 0; i < N; i++) {
    h_v[i] = i;
}\<close>
  from the value \<open>i\<close> of the counter on. \<open>i\<close> is an \<open>int\<close> and \<open>N\<close> an \<open>unsigned int\<close>, so
  the test compares them as unsigned values; \<open>i++\<close> is \<open>int\<close> arithmetic.
\<close>

function init_loop :: "int \<Rightarrow> int \<Rightarrow> prog_state \<Rightarrow> (c_error + unit) \<times> prog_state" where
  "init_loop i N s =
     (if to_uint i < to_uint N
      then (case store_h_v i (Value (of_int i)) s of
              (Inl e, s') \<Rightarrow> (Inl e, s')
            | (Inr u, s') \<Rightarrow>
                if i < INT_MAX then init_loop (i + 1) N s' else (Inl SignedOverflow, s'))
      else (Inr (), s))"
  by pat_completeness auto
termination
proof (relation "measure (\<lambda>(i, N, s). nat (to_uint N - to_uint i))", goal_cases)
  case 1
  show ?case by simp
next
  case (2 i N s x y b)
  have lt: "i mod 4294967296 < N mod 4294967296"
    using 2(1) by (simp add: to_uint_def)
  have "N mod 4294967296 < (4294967296 :: int)"
    by simp
  with lt have b: "i mod 4294967296 + 1 < 4294967296"
    by linarith
  have c: "0 \<le> i mod 4294967296 + 1"
    by simp
  have "(i + 1) mod 4294967296 = (i mod 4294967296 + 1) mod 4294967296"
    by (simp add: mod_add_left_eq)
  also have "\<dots> = i mod 4294967296 + 1"
    using c b by (rule mod_pos_pos_trivial)
  finally have "to_uint (i + 1) = to_uint i + 1"
    by (simp add: to_uint_def)
  with 2(1) show ?case
    by simp
qed

declare init_loop.simps [simp del]

text \<open>
  The locals of \<open>main\<close> that the set-up defines (lines 48 to 81 of the source). The calls
  into the OpenCL and clFFT libraries that follow are outside the model.
\<close>

record main_locals =
  var_N :: int
  var_N_pad :: int
  var_N_bytes :: int
  var_globalSize :: int
  var_localSize :: int

text \<open>
  \<^verbatim>\<open>unsigned int N = 128;
unsigned int N_pad = 2*roundUpToNearest( (N+2)/2, 32 );
size_t N_bytes = N_pad * sizeof(double);
h_v = (double*) malloc(N_bytes);
for (i = 0; i < N; i++) { h_v[i] = i; }
globalSize = N_pad / 2;
localSize = 32;\<close>
\<close>

definition main_setup :: "prog_state \<Rightarrow> (c_error + main_locals) \<times> prog_state" where
  "main_setup s0 =
     (let N = to_uint 128 in
      case paddedLength N 32 s0 of
        (Inl e, s1) \<Rightarrow> (Inl e, s1)
      | (Inr N_pad, s1) \<Rightarrow>
          (let N_bytes = to_size_t (N_pad * sizeof_double);
               s2 = malloc_h_v N_bytes s1
           in case init_loop 0 N s2 of
                (Inl e, s3) \<Rightarrow> (Inl e, s3)
              | (Inr u, s3) \<Rightarrow>
                  (Inr \<lparr>var_N = N, var_N_pad = N_pad, var_N_bytes = N_bytes,
                        var_globalSize = to_size_t (N_pad div 2), var_localSize = 32\<rparr>,
                   s3)))"


section \<open>The algorithm as the specification words it\<close>

text \<open>
  Steps 2 and 3 of the specification, on mathematical integers: round \<open>half\<close> up to the
  nearest multiple of the group width (unchanged if \<open>half mod groupWidth = 0\<close>, otherwise add
  \<open>groupWidth - half mod groupWidth\<close>), and return twice that.
\<close>

definition paddedLength_steps :: "int \<Rightarrow> int \<Rightarrow> int" where
  "paddedLength_steps half groupWidth =
     (let roundedHalf =
        (if half mod groupWidth = 0 then half else half + (groupWidth - half mod groupWidth))
      in 2 * roundedHalf)"

text \<open>Step 1 of the specification takes \<open>half = ceil ((N + 2) / 2)\<close>.\<close>

definition paddedLength_spec :: "int \<Rightarrow> int \<Rightarrow> int" where
  "paddedLength_spec N groupWidth =
     paddedLength_steps \<lceil>real_of_int (N + 2) / 2\<rceil> groupWidth"


section \<open>Auxiliary facts\<close>

subsection \<open>Rounding up on mathematical integers\<close>

text \<open>
  For a positive \<open>n\<close>, \<open>(x + n - 1) div n * n\<close> is the least multiple of \<open>n\<close> that is at least
  \<open>x\<close>; it is what the two branches of \<open>roundUpToNearest\<close> compute when nothing overflows.
\<close>

lemma round_up_closed_form:
  fixes x n :: int
  assumes "0 < n"
  shows "(x + n - 1) div n * n = (if x mod n = 0 then x else x + (n - x mod n))"
proof (cases "x mod n = 0")
  case True
  then obtain q where x: "x = q * n"
    by (metis mod_eq_0_iff_dvd dvd_div_mult_self)
  have "(q * n + (n - 1)) div n = q"
    using assms by simp
  then have "(x + n - 1) div n = q"
    by (simp add: x add_diff_eq)
  then show ?thesis
    using True x by simp
next
  case False
  define r where "r = x mod n"
  define q where "q = x div n"
  have "0 \<le> x mod n" "x mod n < n"
    using assms by simp_all
  with False have r: "0 < r" "r < n"
    unfolding r_def by linarith+
  have e: "x + n - 1 = (q + 1) * n + (r - 1)"
    unfolding q_def r_def by (simp add: algebra_simps)
  have "((q + 1) * n + (r - 1)) div n = q + 1"
    using assms r by simp
  then have "(x + n - 1) div n * n = (q + 1) * n"
    unfolding e by simp
  also have "\<dots> = x + (n - x mod n)"
    unfolding q_def by (simp add: algebra_simps)
  finally show ?thesis
    using False by simp
qed

lemma round_up_ge:
  fixes x n :: int
  assumes "0 < n"
  shows "x \<le> (x + n - 1) div n * n"
proof -
  have "x mod n < n" using assms by simp
  then show ?thesis
    unfolding round_up_closed_form [OF assms] by simp
qed

lemma round_up_dvd:
  fixes x n :: int
  shows "n dvd (x + n - 1) div n * n"
  by simp

subsection \<open>The computation on a positive group width\<close>

lemma int_rem_nonneg: "0 \<le> x \<Longrightarrow> 0 < n \<Longrightarrow> int_rem x n = Inr (x mod n)"
  by (simp add: int_rem_def INT_MIN_def sgn_if)

lemma roundUpToNearest_nonneg:
  assumes "0 \<le> x" "x \<le> INT_MAX" "0 < n" "n \<le> INT_MAX"
  shows "roundUpToNearest x n s =
    (if (x + n - 1) div n * n \<le> INT_MAX then Inr ((x + n - 1) div n * n)
     else Inl SignedOverflow, s)"
proof -
  have rem: "int_rem x n = Inr (x mod n)"
    using assms by (simp add: int_rem_nonneg)
  have m: "0 \<le> x mod n" "x mod n < n" using assms by simp_all
  have "INT_MIN \<le> n - x mod n \<and> n - x mod n \<le> INT_MAX"
    using m assms unfolding INT_MIN_def INT_MAX_def by linarith
  then have d: "int_result (n - x mod n) = Inr (n - x mod n)"
    by (simp add: int_result_def)
  have lo: "INT_MIN \<le> x + (n - x mod n)"
    using m assms unfolding INT_MIN_def by linarith
  show ?thesis
    using rem d lo assms
    by (simp add: roundUpToNearest_def round_up_closed_form int_result_def)
qed

lemma half_range: "0 \<le> to_uint v div 2 \<and> to_uint v div 2 \<le> INT_MAX"
proof -
  have "0 \<le> v mod 4294967296" "v mod 4294967296 < 4294967296"
    by simp_all
  then show ?thesis
    unfolding to_uint_def INT_MAX_def by linarith
qed

lemma to_uint_id: "0 \<le> v \<Longrightarrow> v \<le> UINT_MAX \<Longrightarrow> to_uint v = v"
  by (simp add: to_uint_def UINT_MAX_def)

lemma paddedLength_pos_width:
  assumes "0 < gw" "gw \<le> INT_MAX"
  shows "paddedLength N gw s =
    (if 2 * ((to_uint (N + 2) div 2 + gw - 1) div gw * gw) \<le> INT_MAX
     then Inr (2 * ((to_uint (N + 2) div 2 + gw - 1) div gw * gw))
     else Inl SignedOverflow, s)"
proof -
  define half where "half = to_uint (N + 2) div 2"
  define r where "r = (half + gw - 1) div gw * gw"
  have h: "0 \<le> half" "half \<le> INT_MAX"
    using half_range [of "N + 2"] by (simp_all add: half_def)
  then have conv: "uint_to_int half = half"
    by (simp add: uint_to_int_def)
  have call: "roundUpToNearest half gw s =
      (if r \<le> INT_MAX then Inr r else Inl SignedOverflow, s)"
    using h assms by (simp add: roundUpToNearest_nonneg r_def)
  have "half \<le> r"
    unfolding r_def using assms(1) by (rule round_up_ge)
  with h have r: "0 \<le> r" by linarith
  show ?thesis
  proof (cases "2 * r \<le> INT_MAX")
    case True
    with r have "r \<le> INT_MAX" by linarith
    moreover have "int_result (2 * r) = Inr (2 * r)"
      using True r by (simp add: int_result_def INT_MIN_def)
    moreover have "to_uint (2 * r) = 2 * r"
      using True r by (simp add: to_uint_def INT_MAX_def)
    ultimately show ?thesis
      using True call conv
      by (simp add: paddedLength_def half_def [symmetric] r_def [symmetric])
  next
    case False
    then have "int_result (2 * r) = Inl SignedOverflow"
      by (simp add: int_result_def)
    then show ?thesis
      using False call conv
      by (simp add: paddedLength_def half_def [symmetric] r_def [symmetric])
  qed
qed

lemma paddedLength_value:
  assumes "0 < N" and "0 < gw"
    and "2 * (((N + 2) div 2 + gw - 1) div gw * gw) \<le> INT_MAX"
  shows "paddedLength N gw s = (Inr (2 * (((N + 2) div 2 + gw - 1) div gw * gw)), s)"
proof -
  define half where "half = (N + 2) div 2"
  define r where "r = (half + gw - 1) div gw * gw"
  have fit: "2 * r \<le> INT_MAX"
    using assms(3) by (simp add: half_def r_def)
  have hr: "half \<le> r"
    unfolding r_def using assms(2) by (rule round_up_ge)
  have h1: "N + 1 \<le> 2 * half" "1 \<le> half"
    using assms(1) unfolding half_def by linarith+
  have "gw dvd r"
    unfolding r_def by simp
  moreover have "0 < r"
    using hr h1 by linarith
  ultimately have "gw \<le> r"
    by (rule zdvd_imp_le)
  with fit hr h1 have gw: "gw \<le> INT_MAX"
    by linarith
  have "N + 2 \<le> UINT_MAX"
    using fit hr h1 unfolding INT_MAX_def UINT_MAX_def by linarith
  with assms(1) have wrap: "to_uint (N + 2) = N + 2"
    by (simp add: to_uint_id)
  show ?thesis
    using assms(3) paddedLength_pos_width [OF assms(2) gw, of N s]
    unfolding wrap by simp
qed

lemma ceiling_half_even:
  assumes "even (N::int)"
  shows "\<lceil>real_of_int (N + 2) / 2\<rceil> = (N + 2) div 2"
proof -
  obtain k where k: "N = 2 * k"
    using assms by (auto elim: evenE)
  have "real_of_int (N + 2) / 2 = real_of_int (k + 1)"
    unfolding k by simp
  then have "\<lceil>real_of_int (N + 2) / 2\<rceil> = k + 1"
    by (simp only: ceiling_of_int)
  then show ?thesis
    unfolding k by simp
qed

subsection \<open>The initialisation loop and the set-up\<close>

text \<open>
  Started at \<open>i\<close> on a block of at least \<open>N\<close> doubles, the loop writes \<open>i, \<dots>, N - 1\<close> to
  the positions of the same index and touches nothing else.
\<close>

lemma init_loop_fills:
  assumes "h_v s = Some b" and "0 \<le> i" and "i \<le> N" and "N \<le> INT_MAX"
    and "nat N \<le> length b"
  shows "init_loop i N s =
    (Inr (), s\<lparr>h_v := Some (take (nat i) b @ map (\<lambda>k. Value (of_nat k)) [nat i..<nat N] @
                              drop (nat N) b)\<rparr>)"
  using assms
proof (induction "nat (N - i)" arbitrary: i s b)
  case 0
  then have "i = N" by simp
  then have "init_loop i N s = (Inr (), s)"
    by (simp add: init_loop.simps [of N N s])
  moreover have "s\<lparr>h_v := Some b\<rparr> = s"
    using "0.prems"(1) by simp
  ultimately show ?case
    using \<open>i = N\<close> by simp
next
  case (Suc k)
  then have lt: "i < N" by linarith
  have ui: "to_uint i = i" and uN: "to_uint N = N"
    using Suc.prems lt by (simp_all add: to_uint_def INT_MAX_def)
  have idx: "nat i < length b" "nat i < nat N"
    using Suc.prems lt by linarith+
  define b' where "b' = b[nat i := Value (of_int i)]"
  define s' where "s' = s\<lparr>h_v := Some b'\<rparr>"
  have st: "store_h_v i (Value (of_int i)) s = (Inr (), s')"
    using Suc.prems(1,2) idx by (simp add: store_h_v_def s'_def b'_def)
  have step: "init_loop i N s = init_loop (i + 1) N s'"
    using lt Suc.prems(4) by (simp add: init_loop.simps [of i N s] ui uN st)
  have "init_loop (i + 1) N s' =
    (Inr (), s'\<lparr>h_v := Some (take (nat (i + 1)) b' @
                               map (\<lambda>k. Value (of_nat k)) [nat (i + 1)..<nat N] @
                               drop (nat N) b')\<rparr>)"
  proof (rule Suc.hyps(1))
    show "k = nat (N - (i + 1))" using Suc.hyps(2) by linarith
    show "h_v s' = Some b'" by (simp add: s'_def)
    show "0 \<le> i + 1" using Suc.prems(2) by simp
    show "i + 1 \<le> N" using lt by simp
    show "N \<le> INT_MAX" by (rule Suc.prems(4))
    show "nat N \<le> length b'" using Suc.prems(5) by (simp add: b'_def)
  qed
  moreover have "nat (i + 1) = Suc (nat i)"
    using Suc.prems(2) by simp
  moreover have "take (Suc (nat i)) b' = take (nat i) b @ [Value (of_nat (nat i))]"
    using idx Suc.prems(2) by (simp add: b'_def take_Suc_conv_app_nth)
  moreover have "drop (nat N) b' = drop (nat N) b"
    using idx by (simp add: b'_def)
  moreover have "[nat i..<nat N] = nat i # [Suc (nat i)..<nat N]"
    using idx by (simp add: upt_conv_Cons)
  ultimately show ?case
    using step by (simp add: s'_def)
qed

lemma main_setup_value:
  "main_setup init_state =
     (Inr \<lparr>var_N = 128, var_N_pad = 192, var_N_bytes = 1536, var_globalSize = 96,
           var_localSize = 32\<rparr>,
      init_state\<lparr>h_v := Some (map (\<lambda>k. Value (of_nat k)) [0..<128] @ replicate 64 Indeterminate)\<rparr>)"
proof -
  have N: "to_uint 128 = 128"
    by (simp add: to_uint_def)
  have pad: "paddedLength 128 32 init_state = (Inr 192, init_state)"
    by (simp add: paddedLength_def roundUpToNearest_def int_rem_def int_result_def
        to_uint_def uint_to_int_def INT_MAX_def INT_MIN_def)
  have bytes: "to_size_t (192 * sizeof_double) = 1536"
    by (simp add: to_size_t_def sizeof_double_def)
  have alloc: "malloc_h_v 1536 init_state = init_state\<lparr>h_v := Some (replicate 192 Indeterminate)\<rparr>"
    by (simp add: malloc_h_v_def sizeof_double_def)
  have loop: "init_loop 0 128 (init_state\<lparr>h_v := Some (replicate 192 Indeterminate)\<rparr>) =
      (Inr (), init_state\<lparr>h_v := Some (map (\<lambda>k. Value (of_nat k)) [0..<128] @
                                        replicate 64 Indeterminate)\<rparr>)"
    using init_loop_fills [of "init_state\<lparr>h_v := Some (replicate 192 Indeterminate)\<rparr>"
        "replicate 192 Indeterminate" 0 128]
    by (simp add: INT_MAX_def)
  have gs: "to_size_t 96 = 96"
    by (simp add: to_size_t_def)
  show ?thesis
    by (simp add: main_setup_def N pad bytes alloc loop gs)
qed


section \<open>Claims\<close>

text \<open>
  C1. For every positive logical length \<open>N\<close> and positive group width for which the \<open>int\<close>
  arithmetic does not overflow (twice the least multiple of the group width that is at least
  \<open>(N + 2) div 2\<close> is at most \<open>INT_MAX\<close>), the padded-length computation returns a value that
  is at least \<open>N + 1\<close>, and at least \<open>N + 2\<close> when \<open>N\<close> is even. \<open>(N + 2) / 2\<close> is C's integer
  division, which drops the odd unit.
\<close>

theorem paddedLength_lower_bound:
  assumes "0 < N" and "0 < gw"
    and "2 * (((N + 2) div 2 + gw - 1) div gw * gw) \<le> INT_MAX"
  shows "\<exists>r. paddedLength N gw s = (Inr r, s) \<and> N + 1 \<le> r \<and> (even N \<longrightarrow> N + 2 \<le> r)"
proof -
  define half where "half = (N + 2) div 2"
  define r where "r = (half + gw - 1) div gw * gw"
  have hr: "half \<le> r"
    unfolding r_def using assms(2) by (rule round_up_ge)
  have h1: "N + 1 \<le> 2 * half"
    unfolding half_def by linarith
  have h2: "even N \<Longrightarrow> N + 2 = 2 * half"
    unfolding half_def by auto
  have "paddedLength N gw s = (Inr (2 * r), s)"
    unfolding r_def half_def using assms by (rule paddedLength_value)
  moreover have "N + 1 \<le> 2 * r"
    using hr h1 by linarith
  moreover have "even N \<longrightarrow> N + 2 \<le> 2 * r"
    using hr h2 by auto
  ultimately show ?thesis
    by blast
qed

theorem paddedLength_lower_bound_witness:
  "(0::int) < 128 \<and> (0::int) < 32 \<and>
   2 * (((128 + 2) div 2 + 32 - 1) div 32 * 32) \<le> INT_MAX \<and>
   (\<exists>r. paddedLength 128 32 init_state = (Inr r, init_state) \<and> 128 + 1 \<le> r \<and> 128 + 2 \<le> r)"
  using paddedLength_lower_bound [of 128 32 init_state]
  by (simp add: INT_MAX_def)

text \<open>
  The bound \<open>N + 2\<close> itself fails for odd \<open>N\<close>: with \<open>N = 63\<close> and group width 32 the result is
  64, one less than \<open>N + 2\<close>. It also fails where the unsigned sum \<open>N + 2\<close> wraps around:
  with \<open>N = 4294967294\<close> the result is 0.
\<close>

theorem paddedLength_lower_bound_counterexample:
  "paddedLength 63 32 init_state = (Inr 64, init_state) \<and> \<not> (63 + 2 \<le> (64::int)) \<and>
   paddedLength 4294967294 32 init_state = (Inr 0, init_state)"
  by (simp add: paddedLength_def roundUpToNearest_def int_rem_def int_result_def
      to_uint_def uint_to_int_def INT_MAX_def INT_MIN_def)

text \<open>
  C2. For every positive \<open>N\<close> and positive group width, the padded-length computation takes
  \<open>half = (N + 2) div 2\<close> (the quotient rounded down, not up), rounds \<open>half\<close> up to the nearest
  multiple of the group width (unchanged if \<open>half mod groupWidth = 0\<close>, otherwise adding
  \<open>groupWidth - half mod groupWidth\<close>) and returns twice that, provided this value fits in
  \<open>int\<close>. For even \<open>N\<close> the two roundings of the quotient agree and the result is the one of
  the algorithm as the specification words it.
\<close>

theorem paddedLength_follows_steps:
  assumes "0 < N" and "0 < gw"
    and "paddedLength_steps ((N + 2) div 2) gw \<le> INT_MAX"
  shows "paddedLength N gw s = (Inr (paddedLength_steps ((N + 2) div 2) gw), s) \<and>
         (even N \<longrightarrow> paddedLength N gw s = (Inr (paddedLength_spec N gw), s))"
proof -
  have steps: "paddedLength_steps ((N + 2) div 2) gw =
      2 * (((N + 2) div 2 + gw - 1) div gw * gw)"
    unfolding paddedLength_steps_def Let_def round_up_closed_form [OF assms(2)] ..
  have fit: "2 * (((N + 2) div 2 + gw - 1) div gw * gw) \<le> INT_MAX"
    using assms(3) unfolding steps .
  have code: "paddedLength N gw s = (Inr (paddedLength_steps ((N + 2) div 2) gw), s)"
    unfolding steps using assms(1,2) fit by (rule paddedLength_value)
  have "paddedLength_spec N gw = paddedLength_steps ((N + 2) div 2) gw" if "even N"
    unfolding paddedLength_spec_def ceiling_half_even [OF that] ..
  with code show ?thesis
    by simp
qed

theorem paddedLength_follows_steps_witness:
  "(0::int) < 128 \<and> (0::int) < 32 \<and> paddedLength_steps ((128 + 2) div 2) 32 \<le> INT_MAX \<and>
   even (128::int) \<and> paddedLength_spec 128 32 = 192 \<and>
   paddedLength 128 32 init_state = (Inr 192, init_state)"
  using paddedLength_follows_steps [of 128 32 init_state]
  by (simp add: paddedLength_steps_def paddedLength_spec_def INT_MAX_def)

text \<open>
  With \<open>half = ceil ((N + 2) / 2)\<close> the steps give another value for odd \<open>N\<close>: for \<open>N = 63\<close>
  and group width 32 they give 128 (half 33, rounded up to 64), and the program computes 64
  (half 32, already a multiple of 32).
\<close>

theorem paddedLength_follows_steps_counterexample:
  "paddedLength 63 32 init_state = (Inr 64, init_state) \<and> paddedLength_spec 63 32 = 128"
  by (simp add: paddedLength_def roundUpToNearest_def int_rem_def int_result_def
      to_uint_def uint_to_int_def INT_MAX_def INT_MIN_def
      paddedLength_spec_def paddedLength_steps_def)

text \<open>
  C3. When the set-up of \<open>main\<close> is done (the state that is copied to the device and
  transformed), the block of \<open>N_pad = 192\<close> doubles holds the signal \<open>0, \<dots>, 127\<close> in its first
  \<open>N = 128\<close> positions. The positions 128 to 191 have never been written since \<open>malloc\<close>:
  they are indeterminate, not zero.
\<close>

theorem main_setup_padding_indeterminate:
  "h_v (snd (main_setup init_state)) =
     Some (map (\<lambda>k. Value (of_nat k)) [0..<128] @ replicate 64 Indeterminate) \<and>
   the (h_v (snd (main_setup init_state))) ! 128 = Indeterminate \<and>
   the (h_v (snd (main_setup init_state))) ! 128 \<noteq> Value 0"
  by (simp add: main_setup_value nth_append)

text \<open>
  C4. For every positive \<open>N\<close> and positive group width (an \<open>int\<close>) for which the \<open>int\<close>
  arithmetic does not overflow (twice the least multiple of the group width that is at least
  the half \<open>((N + 2) mod 2 ^ 32) div 2\<close> is at most \<open>INT_MAX\<close>), the result of the padded-length
  computation is even, and the result divided by 2 is a multiple of the group width.
\<close>

theorem paddedLength_even_aligned:
  assumes "0 < N" and "0 < gw" and "gw \<le> INT_MAX"
    and "2 * ((to_uint (N + 2) div 2 + gw - 1) div gw * gw) \<le> INT_MAX"
  shows "\<exists>r. paddedLength N gw s = (Inr r, s) \<and> even r \<and> gw dvd r div 2"
  using assms(4) paddedLength_pos_width [OF assms(2) assms(3), of N s]
  by simp

theorem paddedLength_even_aligned_witness:
  "(0::int) < 128 \<and> (0::int) < 32 \<and> 32 \<le> INT_MAX \<and>
   2 * ((to_uint (128 + 2) div 2 + 32 - 1) div 32 * 32) \<le> INT_MAX \<and>
   (\<exists>r. paddedLength 128 32 init_state = (Inr r, init_state) \<and> even r \<and> 32 dvd r div 2)"
  using paddedLength_even_aligned [of 128 32 init_state]
  by (simp add: INT_MAX_def to_uint_def)

text \<open>
  Without the bound there need not be a result: for \<open>N = 4294967293\<close> and group width 3
  the half is 2147483647 and rounding it up to 2147483649 overflows \<open>int\<close>.
\<close>

theorem paddedLength_even_aligned_counterexample:
  "paddedLength 4294967293 3 init_state = (Inl SignedOverflow, init_state)"
  by (simp add: paddedLength_def roundUpToNearest_def int_rem_def int_result_def
      to_uint_def uint_to_int_def INT_MAX_def INT_MIN_def)

text \<open>
  C5. The padded-length computation yields these concrete values: for \<open>N = 128\<close> and group
  width 32 it is 192, for \<open>N = 30\<close> it is 64, and for \<open>N = 62\<close> it is 64.
\<close>

theorem paddedLength_concrete_cases:
  "paddedLength 128 32 s = (Inr 192, s) \<and>
   paddedLength 30 32 s = (Inr 64, s) \<and>
   paddedLength 62 32 s = (Inr 64, s)"
  by (simp add: paddedLength_def roundUpToNearest_def int_rem_def int_result_def
      to_uint_def uint_to_int_def INT_MAX_def INT_MIN_def)

text \<open>
  C6. For every positive \<open>N\<close> and positive group width such that \<open>N + 2\<close> is exactly
  divisible by twice the group width and \<open>N + 2\<close> is at most \<open>INT_MAX\<close>, the padded-length
  computation returns exactly \<open>N + 2\<close>.
\<close>

theorem paddedLength_exact:
  assumes "0 < N" and "0 < gw" and "2 * gw dvd N + 2" and "N + 2 \<le> INT_MAX"
  shows "paddedLength N gw s = (Inr (N + 2), s)"
proof -
  obtain k where k: "N + 2 = 2 * gw * k"
    using assms(3) by auto
  have half: "(N + 2) div 2 = gw * k"
    unfolding k by simp
  have "(gw * k + gw - 1) div gw * gw = gw * k"
    using assms(2) by (simp add: round_up_closed_form)
  then have r: "2 * (((N + 2) div 2 + gw - 1) div gw * gw) = N + 2"
    unfolding half using k by simp
  have "2 * gw \<le> N + 2"
    using assms(1,3) by (intro zdvd_imp_le) simp_all
  with assms(2,4) have gw: "gw \<le> INT_MAX"
    by linarith
  have wrap: "to_uint (N + 2) = N + 2"
    using assms(1,4) by (simp add: to_uint_def INT_MAX_def)
  have "paddedLength N gw s =
      (if N + 2 \<le> INT_MAX then Inr (N + 2) else Inl SignedOverflow, s)"
    using paddedLength_pos_width [OF assms(2) gw, of N s]
    unfolding wrap r .
  with assms(4) show ?thesis
    by simp
qed

theorem paddedLength_exact_witness:
  "(0::int) < 62 \<and> (0::int) < 32 \<and> (2 * 32 :: int) dvd 62 + 2 \<and> 62 + 2 \<le> INT_MAX \<and>
   paddedLength 62 32 init_state = (Inr (62 + 2), init_state)"
  using paddedLength_exact [of 62 32 init_state]
  by (simp add: INT_MAX_def)

text \<open>
  Beyond that bound the claim fails: for \<open>N = 4294967294\<close> and group width 32, \<open>N + 2\<close> is
  \<open>2 ^ 32\<close>, a multiple of 64, but the unsigned sum wraps around to 0 and the result is 0.
\<close>

theorem paddedLength_exact_counterexample:
  "(2 * 32 :: int) dvd 4294967294 + 2 \<and>
   paddedLength 4294967294 32 init_state = (Inr 0, init_state) \<and> (0::int) \<noteq> 4294967294 + 2"
  by (simp add: paddedLength_def roundUpToNearest_def int_rem_def int_result_def
      to_uint_def uint_to_int_def INT_MAX_def INT_MIN_def)

text \<open>
  C7. The padded-length computation checks neither argument and never answers with an
  invalid-argument error. For the logical length 0 and a positive group width it returns
  twice the group width; for a negative group width it returns the value that C's truncated
  remainder leads to (as an \<open>unsigned int\<close>); for the group width 0 it has no result, because
  the remainder divides by zero.
\<close>

theorem paddedLength_unchecked_arguments:
  "(0 < gw \<and> 2 * gw \<le> INT_MAX \<longrightarrow> paddedLength 0 gw s = (Inr (2 * gw), s)) \<and>
   paddedLength N 0 s = (Inl DivisionByZero, s) \<and>
   (0 \<le> N \<and> N + 2 \<le> INT_MAX \<and> INT_MIN \<le> 2 * gw \<and> gw < 0 \<longrightarrow>
      paddedLength N gw s =
        (Inr (to_uint (2 * (if (N + 2) div 2 mod (- gw) = 0 then (N + 2) div 2
                            else (N + 2) div 2 + (gw - (N + 2) div 2 mod (- gw))))), s))"
proof (intro conjI impI)
  assume a: "0 < gw \<and> 2 * gw \<le> INT_MAX"
  then have gw: "gw \<le> INT_MAX"
    by linarith
  have "(1 + gw - 1) div gw * gw = gw"
    using a by simp
  moreover have "to_uint (0 + 2) div 2 = 1"
    by (simp add: to_uint_def)
  ultimately show "paddedLength 0 gw s = (Inr (2 * gw), s)"
    using a paddedLength_pos_width [of gw 0 s] gw by simp
next
  show "paddedLength N 0 s = (Inl DivisionByZero, s)"
    by (simp add: paddedLength_def roundUpToNearest_def int_rem_def)
next
  assume a: "0 \<le> N \<and> N + 2 \<le> INT_MAX \<and> INT_MIN \<le> 2 * gw \<and> gw < 0"
  define half where "half = (N + 2) div 2"
  define m where "m = half mod (- gw)"
  have wrap: "to_uint (N + 2) = N + 2"
    using a by (simp add: to_uint_def INT_MAX_def)
  have h: "1 \<le> half" "2 * half \<le> INT_MAX"
    using a unfolding half_def by linarith+
  then have conv: "uint_to_int half = half"
    by (simp add: uint_to_int_def)
  have rem: "int_rem half gw = Inr m"
    using a h by (simp add: int_rem_def m_def INT_MIN_def sgn_if)
  have m: "0 \<le> m" "m < - gw" "m \<le> half"
    using a h unfolding m_def by (simp_all add: zmod_le_nonneg_dividend)
  have d: "int_result (gw - m) = Inr (gw - m)"
    using a m unfolding int_result_def INT_MIN_def INT_MAX_def by simp
  have e: "int_result (half + (gw - m)) = Inr (half + (gw - m))"
    using a m h unfolding int_result_def INT_MIN_def INT_MAX_def by simp
  have f: "int_result (2 * (half + (gw - m))) = Inr (2 * (half + (gw - m)))"
    using a m h unfolding int_result_def INT_MIN_def INT_MAX_def by simp
  have g: "int_result (2 * half) = Inr (2 * half)"
    using h unfolding int_result_def INT_MIN_def by simp
  have "paddedLength N gw s =
      (Inr (to_uint (2 * (if m = 0 then half else half + (gw - m)))), s)"
    using rem d e f g conv
    by (simp add: paddedLength_def roundUpToNearest_def wrap half_def [symmetric])
  then show "paddedLength N gw s =
        (Inr (to_uint (2 * (if (N + 2) div 2 mod (- gw) = 0 then (N + 2) div 2
                            else (N + 2) div 2 + (gw - (N + 2) div 2 mod (- gw))))), s)"
    unfolding m_def half_def .
qed

theorem paddedLength_unchecked_arguments_witness:
  "paddedLength 0 32 init_state = (Inr 64, init_state) \<and>
   paddedLength 128 0 init_state = (Inl DivisionByZero, init_state) \<and>
   paddedLength 128 (- 32) init_state = (Inr 64, init_state) \<and>
   paddedLength 0 (- 32) init_state = (Inr 4294967232, init_state)"
  using paddedLength_unchecked_arguments [of 32 init_state 128]
    paddedLength_unchecked_arguments [of "- 32" init_state 128]
    paddedLength_unchecked_arguments [of "- 32" init_state 0]
  by (simp add: INT_MAX_def INT_MIN_def to_uint_def)

text \<open>
  The logical length 0 is not positive, and the computation returns 64 for it with group
  width 32.
\<close>

theorem paddedLength_unchecked_arguments_counterexample:
  "\<not> (0::int) < 0 \<and> paddedLength 0 32 init_state = (Inr 64, init_state)"
  by (simp add: paddedLength_def roundUpToNearest_def int_rem_def int_result_def
      to_uint_def uint_to_int_def INT_MAX_def INT_MIN_def)

text \<open>
  C8. The padded-length computation is deterministic and free of side effects: its
  outcome (a value, or the undefined behaviour it runs into) is the same in any two program
  states, so it depends on the two arguments alone; the state is left as it was; and a
  second call with the same arguments gives what the first gave. The same holds for
  \<open>roundUpToNearest\<close>.
\<close>

theorem paddedLength_pure:
  "fst (roundUpToNearest x n s) = fst (roundUpToNearest x n s') \<and>
   snd (roundUpToNearest x n s) = s \<and>
   fst (paddedLength N gw s) = fst (paddedLength N gw s') \<and>
   snd (paddedLength N gw s) = s \<and>
   paddedLength N gw (snd (paddedLength N gw s)) = paddedLength N gw s"
proof -
  have r1: "snd (roundUpToNearest x n t) = t" for x n t
    by (simp add: roundUpToNearest_def split: sum.split)
  have r2: "fst (roundUpToNearest x n t) = fst (roundUpToNearest x n t')" for x n t t'
    by (simp add: roundUpToNearest_def split: sum.split)
  have r: "roundUpToNearest x n t = (fst (roundUpToNearest x n init_state), t)" for x n t
    using r1 [of x n t] r2 [of x n t init_state] by (simp add: prod_eq_iff)
  have p1: "snd (paddedLength N gw t) = t" for t
    unfolding paddedLength_def by (subst r) (simp split: sum.split)
  have p2: "fst (paddedLength N gw t) = fst (paddedLength N gw t')" for t t'
    unfolding paddedLength_def by (subst r, subst (2) r) (simp split: sum.split)
  show ?thesis
    using r1 r2 p1 p2 by simp
qed

text \<open>
  C9. The set-up of \<open>main\<close> completes, and the padded length computed for \<open>N = 128\<close>
  determines the configuration: the byte size of the buffer is the padded length times
  \<open>sizeof(double)\<close> (and the block allocated for \<open>h_v\<close> has that many bytes), the global
  worker count is the padded length divided by 2, and the width of a group is 32.
\<close>

theorem main_setup_configuration:
  "\<exists>l s. main_setup init_state = (Inr l, s) \<and> var_N l = 128 \<and>
     paddedLength 128 32 init_state = (Inr (var_N_pad l), init_state) \<and>
     var_N_bytes l = var_N_pad l * sizeof_double \<and>
     (\<exists>b. h_v s = Some b \<and> int (length b) * sizeof_double = var_N_bytes l) \<and>
     var_globalSize l = var_N_pad l div 2 \<and>
     var_localSize l = 32"
proof -
  have "paddedLength 128 32 init_state = (Inr 192, init_state)"
    by (simp add: paddedLength_def roundUpToNearest_def int_rem_def int_result_def
        to_uint_def uint_to_int_def INT_MAX_def INT_MIN_def)
  then show ?thesis
    by (simp add: main_setup_value sizeof_double_def)
qed

text \<open>
  C10. For every non-negative \<open>x\<close> and positive \<open>n\<close> (an \<open>int\<close>) such that the least multiple of
  \<open>n\<close> that is at least \<open>x\<close> is at most \<open>INT_MAX\<close>, \<open>roundUpToNearest x n\<close> returns that least
  multiple, and it returns \<open>x\<close> itself exactly when \<open>x\<close> is a multiple of \<open>n\<close>.
\<close>

theorem roundUpToNearest_least_multiple:
  assumes "0 \<le> x" and "0 < n" and "n \<le> INT_MAX"
    and "(x + n - 1) div n * n \<le> INT_MAX"
  shows "\<exists>r. roundUpToNearest x n s = (Inr r, s) \<and> n dvd r \<and> x \<le> r \<and>
           (\<forall>m. n dvd m \<and> x \<le> m \<longrightarrow> r \<le> m) \<and> (r = x \<longleftrightarrow> n dvd x)"
proof -
  define r where "r = (x + n - 1) div n * n"
  have xr: "x \<le> r"
    unfolding r_def using assms(2) by (rule round_up_ge)
  with assms(4) have "x \<le> INT_MAX"
    unfolding r_def by linarith
  then have call: "roundUpToNearest x n s = (Inr r, s)"
    using assms by (simp add: roundUpToNearest_nonneg r_def)
  have least: "r \<le> m" if "n dvd m" and "x \<le> m" for m
  proof -
    from that(1) obtain k where m: "m = n * k" ..
    have "x + n - 1 \<le> n * k + (n - 1)"
      using that(2) m by simp
    then have "(x + n - 1) div n \<le> (n * k + (n - 1)) div n"
      using assms(2) by (intro zdiv_mono1) simp_all
    also have "\<dots> = k"
      using assms(2) by simp
    finally have "(x + n - 1) div n * n \<le> k * n"
      using assms(2) by (simp add: mult_right_mono)
    then show ?thesis
      by (simp add: r_def m mult.commute)
  qed
  have same: "r = x \<longleftrightarrow> n dvd x"
  proof -
    have "x mod n < n" using assms(2) by simp
    then show ?thesis
      unfolding r_def round_up_closed_form [OF assms(2)]
      by (auto simp: mod_eq_0_iff_dvd)
  qed
  have "n dvd r"
    unfolding r_def by simp
  with call xr least same show ?thesis
    by blast
qed

theorem roundUpToNearest_least_multiple_witness:
  "(0::int) \<le> 65 \<and> (0::int) < 32 \<and> 32 \<le> INT_MAX \<and>
   (65 + 32 - 1) div 32 * 32 \<le> INT_MAX \<and>
   roundUpToNearest 65 32 init_state = (Inr 96, init_state) \<and>
   roundUpToNearest 64 32 init_state = (Inr 64, init_state)"
  using roundUpToNearest_least_multiple [of 65 32 init_state]
    roundUpToNearest_least_multiple [of 64 32 init_state]
  by (simp add: INT_MAX_def roundUpToNearest_def int_rem_def int_result_def INT_MIN_def)

text \<open>
  When the least multiple does not fit in \<open>int\<close> the addition overflows: \<open>x = 2147483647\<close>
  and \<open>n = 2\<close>.
\<close>

theorem roundUpToNearest_least_multiple_counterexample:
  "(0::int) \<le> 2147483647 \<and> (0::int) < 2 \<and> 2147483647 \<le> INT_MAX \<and>
   roundUpToNearest 2147483647 2 init_state = (Inl SignedOverflow, init_state)"
  by (simp add: roundUpToNearest_def int_rem_def int_result_def INT_MAX_def INT_MIN_def)

end
